theory Spec2Isabelle
  imports Complex_Main
begin

section \<open>The token connector of eosws-js (src/client/connector.ts)\<close>

text \<open>
  \<open>EoswsConnector\<close> keeps an API token fresh around a transport client. Its methods are
  \<open>async\<close>: each runs synchronously up to its first \<open>await\<close> on the token exchange and is
  resumed when that exchange settles. JavaScript runs them on one thread, so an execution
  is a sequence of events, each handled to completion:
  \<^item> \<open>Call c m\<close>: caller \<open>c\<close> invokes method \<open>m\<close>; the synchronous prefix of \<open>m\<close> runs;
  \<^item> \<open>Settle p res\<close>: the promise \<open>p\<close> of a \<open>getNewApiToken\<close> exchange resolves with a
    value or rejects with a reason; the \<open>then\<close>/\<open>catch\<close> callback of \<open>fetchToken\<close> runs and
    the calls awaiting \<open>p\<close> are resumed in the order of the microtask queue.
  \<open>getNewApiToken\<close> is declared to resolve with an \<open>ApiTokenInfo\<close>, but \<open>fetchToken\<close> passes
  on whatever value it resolves with, so the value of a \<open>Settle\<close> may be \<open>undefined\<close>.
  Every event carries the reading of \<open>Date.now()\<close> (milliseconds, an integer) that the
  code sees while the event is handled. The callback the constructor gives to the refresh
  scheduler is \<open>() => this.refreshToken()\<close>: a timer that fires is a \<open>Call\<close> of
  \<open>RefreshToken\<close> by the scheduler.

  What the model abstracts:
  \<^item> JavaScript numbers are doubles; they are modelled as reals, so rounding and \<open>NaN\<close> are
    not represented;
  \<^item> an event is handled without another event in between: the continuations that one
    settlement resumes run to their end within it, and a call that needs no exchange runs to
    its end in the event of the call;
  \<^item> the collaborators (transport client, refresh scheduler) are not part of connector.ts:
    the model logs the calls made to them, and a connector promise that only passes on the
    promise of a client call is recorded as delegated to that call.
\<close>

subsection \<open>Data\<close>

text \<open>\<open>ApiTokenInfo\<close> (imported from client.ts): the token and its expiry in seconds.\<close>

record ApiTokenInfo =
  token :: string
  expires_at :: real

text \<open>Calls the connector makes to its collaborators, in the order they are made.\<close>

datatype call =
    SetTokenStorage
  | GetNewApiToken string
  | ClientConnect
  | ClientReconnect
  | ClientDisconnect
  | ScheduleNextRefresh real

text \<open>
  What a connector promise can reject with: the reason of the rejected token exchange,
  passed through unchanged; \<open>new Error("error getting token")\<close>, with the statement that
  threw it (line 70 in \<open>connect\<close>, line 109 in \<open>refreshToken\<close>); and the \<open>TypeError\<close> of
  reading \<open>expires_at\<close> of \<open>undefined\<close>.
\<close>

datatype thrown_in = In_connect | In_refreshToken

datatype error =
    ExchangeError string
  | ErrorGettingToken thrown_in
  | TypeError

text \<open>
  How a call of a public method ends: resolved with \<open>tokenInfo\<close> (\<open>None\<close> is
  \<open>undefined\<close>), rejected, or settling exactly as the promise of a client call does.
\<close>

datatype outcome =
    Token "ApiTokenInfo option"
  | Failed error
  | Delegated call

datatype operation = Connect | Reconnect | Disconnect | GetToken | RefreshToken

text \<open>
  A suspended call, named by the public method that was invoked: \<open>InConnect\<close> is
  \<open>connect\<close> awaiting \<open>getToken\<close> awaiting \<open>refreshToken\<close> awaiting \<open>fetchToken\<close>.
\<close>

datatype frame = InRefreshToken | InGetToken | InConnect

datatype event =
    Call nat operation
  | Settle nat "string + ApiTokenInfo option"

text \<open>The synchronous prefix of an async function: it returned, threw, or awaits a promise.\<close>

datatype 'a progress = Returned 'a | Threw error | Awaiting nat

text \<open>
  The fields of class \<open>EoswsConnector\<close>. \<open>tokenStorage\<close> is the content of the storage
  object the field refers to; \<open>tokenPromise\<close> is the identity of the promise stored in
  the field (\<open>None\<close> is \<open>undefined\<close>).
\<close>

record EoswsConnector =
  apiKey :: string
  delayBuffer :: real
  firstCall :: bool
  tokenPromise :: "nat option"
  tokenStorage :: "ApiTokenInfo option"

text \<open>
  The connector in its environment: the log of collaborator calls, the exchanges that
  have not settled yet, the suspended calls with the promise each awaits, the calls that
  have ended, and the identity of the next promise.
\<close>

record world = EoswsConnector +
  calls :: "call list"
  inflight :: "nat list"
  waiting :: "(nat \<times> nat \<times> frame) list"
  finished :: "(nat \<times> outcome) list"
  nextPromise :: nat

record EoswsConnectorParams =
  params_apiKey :: string
  params_tokenStorage :: "ApiTokenInfo option"
  params_delayBuffer :: "real option"

subsection \<open>Collaborators\<close>

text \<open>
  Modelled from the spec: \<open>ApiTokenStorage\<close> (api-token-storage.ts is not among the
  sources). The store holds at most one token; \<open>get\<close> returns it or absent and never
  fails, \<open>set\<close> overwrites it.
\<close>

definition storage_get :: "world \<Rightarrow> ApiTokenInfo option" where
  "storage_get w = tokenStorage w"

definition storage_set :: "ApiTokenInfo \<Rightarrow> world \<Rightarrow> world" where
  "storage_set t w = w\<lparr>tokenStorage := Some t\<rparr>"

text \<open>A call to a collaborator is appended to the log.\<close>

definition invoke :: "call \<Rightarrow> world \<Rightarrow> world" where
  "invoke c w = w\<lparr>calls := calls w @ [c]\<rparr>"

text \<open>
  Modelled from the spec: \<open>RefreshScheduler\<close> (refresh-scheduler.ts is not among the
  sources). Arming replaces any timer armed before, so the armed delay is the one of the
  latest \<open>scheduleNextRefresh\<close> call, if there is one.
\<close>

fun armed :: "call list \<Rightarrow> real option" where
  "armed [] = None"
| "armed (ScheduleNextRefresh d # cs) = (case armed cs of None \<Rightarrow> Some d | Some d' \<Rightarrow> Some d')"
| "armed (c # cs) = armed cs"

text \<open>The calls of a log that are token exchanges, and those that arm the scheduler.\<close>

fun is_exchange :: "call \<Rightarrow> bool" where
  "is_exchange (GetNewApiToken k) = True"
| "is_exchange c = False"

fun is_schedule :: "call \<Rightarrow> bool" where
  "is_schedule (ScheduleNextRefresh d) = True"
| "is_schedule c = False"

subsection \<open>The connector\<close>

text \<open>
  The constructor (lines 41-49). \<open>params.delayBuffer ? params.delayBuffer : 0.9\<close>: an
  absent and a zero \<open>delayBuffer\<close> are both falsy. \<open>params_tokenStorage\<close> is the content of
  the storage the connector ends up with, injected or default.
\<close>

definition DEFAULT_DELAY_BUFFER_PERCENT :: real where
  "DEFAULT_DELAY_BUFFER_PERCENT = 0.9"

definition constructor :: "EoswsConnectorParams \<Rightarrow> world" where
  "constructor params =
     \<lparr> apiKey = params_apiKey params,
       delayBuffer = (case params_delayBuffer params of
                        None \<Rightarrow> DEFAULT_DELAY_BUFFER_PERCENT
                      | Some d \<Rightarrow> if d \<noteq> 0 then d else DEFAULT_DELAY_BUFFER_PERCENT),
       firstCall = True,
       tokenPromise = None,
       tokenStorage = params_tokenStorage params,
       calls = [SetTokenStorage],
       inflight = [],
       waiting = [],
       finished = [],
       nextPromise = 0 \<rparr>"

text \<open>\<open>Date.now() / 1000\<close>.\<close>

definition seconds :: "int \<Rightarrow> real" where
  "seconds ms = real_of_int ms / 1000"

text \<open>\<open>isExpiring\<close> (lines 51-57).\<close>

definition isExpiring :: "int \<Rightarrow> ApiTokenInfo option \<Rightarrow> bool" where
  "isExpiring ms tokenInfo =
     (case tokenInfo of
        None \<Rightarrow> True
      | Some t \<Rightarrow> expires_at t \<le> seconds ms)"

text \<open>\<open>getRefreshDelay\<close> (lines 59-62). The method reads no field of \<open>this\<close>.\<close>

definition getRefreshDelay :: "int \<Rightarrow> ApiTokenInfo \<Rightarrow> real" where
  "getRefreshDelay ms tokenInfo = (expires_at tokenInfo - seconds ms) * 0.9"

text \<open>
  \<open>fetchToken\<close> (lines 112-131), up to its return: the promise the caller will await.
  With a promise in the field, that promise is returned. Otherwise the executor of the
  new promise calls \<open>getNewApiToken(this.apiKey)\<close> and the promise is stored in the field.
\<close>

definition fetchToken :: "world \<Rightarrow> nat \<times> world" where
  "fetchToken w =
     (case tokenPromise w of
        Some p \<Rightarrow> (p, w)
      | None \<Rightarrow>
          (let p = nextPromise w;
               w1 = invoke (GetNewApiToken (apiKey w)) w
           in (p, w1\<lparr>tokenPromise := Some p,
                     inflight := inflight w1 @ [p],
                     nextPromise := p + 1\<rparr>)))"

text \<open>
  The callbacks of \<open>fetchToken\<close> (lines 120-127): both clear the field; \<open>then\<close> resolves
  the promise with the value of the exchange, whatever it is, \<open>catch\<close> rejects it with the
  reason. The result is what \<open>await this.fetchToken()\<close> yields (typed
  \<open>ApiTokenInfo | undefined\<close>) or throws.
\<close>

definition fetchToken_settled ::
    "string + ApiTokenInfo option \<Rightarrow> world \<Rightarrow> (error + ApiTokenInfo option) \<times> world" where
  "fetchToken_settled res w =
     (case res of
        Inr apiTokenInfo \<Rightarrow> (Inr apiTokenInfo, w\<lparr>tokenPromise := None\<rparr>)
      | Inl reason \<Rightarrow> (Inl (ExchangeError reason), w\<lparr>tokenPromise := None\<rparr>))"

text \<open>\<open>refreshToken\<close> (lines 100-110) after \<open>await this.fetchToken()\<close>.\<close>

definition refreshToken_resumed ::
    "int \<Rightarrow> error + ApiTokenInfo option \<Rightarrow> world \<Rightarrow> (error + ApiTokenInfo) \<times> world" where
  "refreshToken_resumed ms awaited w =
     (case awaited of
        Inl e \<Rightarrow> (Inl e, w)
      | Inr None \<Rightarrow> (Inl (ErrorGettingToken In_refreshToken), w)
      | Inr (Some tokenInfo) \<Rightarrow>
          (Inr tokenInfo,
           invoke (ScheduleNextRefresh (getRefreshDelay ms tokenInfo))
             (storage_set tokenInfo w)))"

text \<open>
  \<open>getToken\<close> (lines 81-98) up to its first \<open>await\<close> or its return. In the second branch
  \<open>tokenInfo!\<close> is only a type assertion: \<open>getRefreshDelay(undefined)\<close> would throw.
\<close>

definition getToken :: "int \<Rightarrow> world \<Rightarrow> ApiTokenInfo option progress \<times> world" where
  "getToken ms w =
     (let tokenInfo = storage_get w in
      if isExpiring ms tokenInfo then
        (let (p, w1) = fetchToken (w\<lparr>firstCall := False\<rparr>) in (Awaiting p, w1))
      else if firstCall w then
        (case tokenInfo of
           None \<Rightarrow> (Threw TypeError, w)
         | Some t \<Rightarrow>
             (Returned tokenInfo,
              (invoke (ScheduleNextRefresh (getRefreshDelay ms t)) w)\<lparr>firstCall := False\<rparr>))
      else (Returned tokenInfo, w))"

text \<open>\<open>getToken\<close> after \<open>await this.refreshToken()\<close> (lines 87-88).\<close>

definition getToken_resumed ::
    "error + ApiTokenInfo \<Rightarrow> world \<Rightarrow> (error + ApiTokenInfo option) \<times> world" where
  "getToken_resumed awaited w =
     (case awaited of
        Inl e \<Rightarrow> (Inl e, w)
      | Inr apiTokenInfo \<Rightarrow> (Inr (Some apiTokenInfo), storage_set apiTokenInfo w))"

text \<open>\<open>connect\<close> (lines 64-71) after \<open>await this.getToken()\<close>.\<close>

definition connect_resumed :: "error + ApiTokenInfo option \<Rightarrow> world \<Rightarrow> outcome \<times> world" where
  "connect_resumed awaited w =
     (case awaited of
        Inl e \<Rightarrow> (Failed e, w)
      | Inr None \<Rightarrow> (Failed (ErrorGettingToken In_connect), w)
      | Inr (Some apiToken) \<Rightarrow>
          (Delegated ClientConnect, invoke ClientConnect (storage_set apiToken w)))"

text \<open>\<open>reconnect\<close> (lines 73-75) and \<open>disconnect\<close> (lines 77-79).\<close>

definition reconnect :: "world \<Rightarrow> outcome \<times> world" where
  "reconnect w = (Delegated ClientReconnect, invoke ClientReconnect w)"

definition disconnect :: "world \<Rightarrow> outcome \<times> world" where
  "disconnect w = (Delegated ClientDisconnect, invoke ClientDisconnect w)"

subsection \<open>Events\<close>

definition finish :: "nat \<Rightarrow> outcome \<Rightarrow> world \<Rightarrow> world" where
  "finish c out w = w\<lparr>finished := finished w @ [(c, out)]\<rparr>"

definition suspend :: "nat \<Rightarrow> nat \<Rightarrow> frame \<Rightarrow> world \<Rightarrow> world" where
  "suspend p c f w = w\<lparr>waiting := waiting w @ [(p, c, f)]\<rparr>"

text \<open>A method is invoked by caller \<open>c\<close>.\<close>

fun call_method :: "int \<Rightarrow> nat \<Rightarrow> operation \<Rightarrow> world \<Rightarrow> world" where
  "call_method ms c RefreshToken w =
     (let (p, w1) = fetchToken w in suspend p c InRefreshToken w1)"
| "call_method ms c GetToken w =
     (case getToken ms w of
        (Awaiting p, w1) \<Rightarrow> suspend p c InGetToken w1
      | (Returned tokenInfo, w1) \<Rightarrow> finish c (Token tokenInfo) w1
      | (Threw e, w1) \<Rightarrow> finish c (Failed e) w1)"
| "call_method ms c Connect w =
     (case getToken ms w of
        (Awaiting p, w1) \<Rightarrow> suspend p c InConnect w1
      | (Returned apiToken, w1) \<Rightarrow>
          (let (out, w2) = connect_resumed (Inr apiToken) w1 in finish c out w2)
      | (Threw e, w1) \<Rightarrow>
          (let (out, w2) = connect_resumed (Inl e) w1 in finish c out w2))"
| "call_method ms c Reconnect w = (let (out, w1) = reconnect w in finish c out w1)"
| "call_method ms c Disconnect w = (let (out, w1) = disconnect w in finish c out w1)"

text \<open>
  The calls suspended on one promise are resumed by the depth of their \<open>await\<close>. Every
  one of them is inside \<open>refreshToken\<close> awaiting \<open>fetchToken\<close>: these continuations run
  first, oldest call first, and a call of \<open>refreshToken\<close> itself ends there. Each of the
  others then awaits the promise of its \<open>refreshToken\<close>, which has just settled: the
  continuations of \<open>getToken\<close> run next, and a call of \<open>getToken\<close> ends there. The
  continuations of \<open>connect\<close> run last.
\<close>

fun resume_refreshToken ::
    "int \<Rightarrow> error + ApiTokenInfo option \<Rightarrow> (nat \<times> nat \<times> frame) list \<Rightarrow> world
       \<Rightarrow> (nat \<times> frame \<times> (error + ApiTokenInfo)) list \<times> world" where
  "resume_refreshToken ms awaited [] w = ([], w)"
| "resume_refreshToken ms awaited ((p, c, f) # ws) w =
     (let (r, w1) = refreshToken_resumed ms awaited w in
      if f = InRefreshToken then
        resume_refreshToken ms awaited ws
          (finish c (case r of Inl e \<Rightarrow> Failed e | Inr tokenInfo \<Rightarrow> Token (Some tokenInfo)) w1)
      else
        (let (rs, w2) = resume_refreshToken ms awaited ws w1 in ((c, f, r) # rs, w2)))"

fun resume_getToken ::
    "(nat \<times> frame \<times> (error + ApiTokenInfo)) list \<Rightarrow> world
       \<Rightarrow> (nat \<times> (error + ApiTokenInfo option)) list \<times> world" where
  "resume_getToken [] w = ([], w)"
| "resume_getToken ((c, f, r) # rs) w =
     (let (g, w1) = getToken_resumed r w in
      if f = InGetToken then
        resume_getToken rs
          (finish c (case g of Inl e \<Rightarrow> Failed e | Inr tokenInfo \<Rightarrow> Token tokenInfo) w1)
      else
        (let (gs, w2) = resume_getToken rs w1 in ((c, g) # gs, w2)))"

fun resume_connect :: "(nat \<times> (error + ApiTokenInfo option)) list \<Rightarrow> world \<Rightarrow> world" where
  "resume_connect [] w = w"
| "resume_connect ((c, g) # gs) w =
     (let (out, w1) = connect_resumed g w in resume_connect gs (finish c out w1))"

definition resume_all ::
    "int \<Rightarrow> error + ApiTokenInfo option \<Rightarrow> (nat \<times> nat \<times> frame) list \<Rightarrow> world \<Rightarrow> world" where
  "resume_all ms awaited ws w =
     (let (rs, w1) = resume_refreshToken ms awaited ws w;
          (gs, w2) = resume_getToken rs w1
      in resume_connect gs w2)"

text \<open>
  The exchange behind promise \<open>p\<close> settles. An exchange settles once, so a \<open>p\<close> that is
  not in flight is no event of the program.
\<close>

definition settle :: "int \<Rightarrow> nat \<Rightarrow> string + ApiTokenInfo option \<Rightarrow> world \<Rightarrow> world" where
  "settle ms p res w =
     (if p \<in> set (inflight w) then
        (let (awaited, w1) = fetchToken_settled res (w\<lparr>inflight := removeAll p (inflight w)\<rparr>);
             resumed = filter (\<lambda>x. fst x = p) (waiting w1);
             w2 = w1\<lparr>waiting := filter (\<lambda>x. fst x \<noteq> p) (waiting w1)\<rparr>
         in resume_all ms awaited resumed w2)
      else w)"

fun step :: "int \<Rightarrow> event \<Rightarrow> world \<Rightarrow> world" where
  "step ms (Call c m) w = call_method ms c m w"
| "step ms (Settle p res) w = settle ms p res w"

text \<open>An execution: the events in order, each with its clock reading.\<close>

fun exec :: "world \<Rightarrow> (int \<times> event) list \<Rightarrow> world" where
  "exec w [] = w"
| "exec w ((ms, e) # es) = exec (step ms e w) es"

text \<open>The events that run \<open>getToken\<close>: a call of it, or of \<open>connect\<close>.\<close>

fun runs_getToken :: "event \<Rightarrow> bool" where
  "runs_getToken (Call c GetToken) = True"
| "runs_getToken (Call c Connect) = True"
| "runs_getToken e = False"

subsection \<open>Auxiliary notions for the statements and proofs\<close>

text \<open>
  The suspended calls of one kind, and the order in which one settlement resumes and ends
  the suspended calls (lemmas \<open>resume_all_failed\<close> and \<open>resume_all_resolved\<close>).
\<close>

definition frames :: "frame \<Rightarrow> (nat \<times> nat \<times> frame) list \<Rightarrow> (nat \<times> nat \<times> frame) list" where
  "frames f ws = filter (\<lambda>x. snd (snd x) = f) ws"

definition by_depth :: "(nat \<times> nat \<times> frame) list \<Rightarrow> (nat \<times> nat \<times> frame) list" where
  "by_depth ws = frames InRefreshToken ws @ frames InGetToken ws @ frames InConnect ws"

text \<open>How a suspended call ends when the exchange resolves with a token.\<close>

fun resolved_outcome :: "ApiTokenInfo \<Rightarrow> frame \<Rightarrow> outcome" where
  "resolved_outcome t InConnect = Delegated ClientConnect"
| "resolved_outcome t f = Token (Some t)"

text \<open>
  The invariant of executions: the exchange in flight, if any, is the one whose promise
  is in \<open>tokenPromise\<close>; every suspended call awaits that promise; promise identities
  are handed out in increasing order.
\<close>

definition wf :: "world \<Rightarrow> bool" where
  "wf w = (inflight w = (case tokenPromise w of None \<Rightarrow> [] | Some p \<Rightarrow> [p])
           \<and> list_all (\<lambda>x. tokenPromise w = Some (fst x)) (waiting w)
           \<and> (case tokenPromise w of None \<Rightarrow> True | Some p \<Rightarrow> p < nextPromise w))"



section \<open>Properties\<close>

subsection \<open>Resuming suspended calls\<close>

lemmas connector_defs =
  constructor_def DEFAULT_DELAY_BUFFER_PERCENT_def seconds_def isExpiring_def
  getRefreshDelay_def fetchToken_def fetchToken_settled_def refreshToken_resumed_def
  getToken_def getToken_resumed_def connect_resumed_def reconnect_def disconnect_def
  storage_get_def storage_set_def invoke_def finish_def suspend_def

lemma frames_Nil: "frames f [] = []"
  by (simp add: frames_def)

lemma frames_Cons:
  "frames f ((p, c, g) # ws) = (if g = f then (p, c, g) # frames f ws else frames f ws)"
  by (simp add: frames_def)

lemma frames_append: "frames f (ws @ vs) = frames f ws @ frames f vs"
  by (simp add: frames_def)

lemma frames_not_refreshToken:
  "frames InGetToken (filter (\<lambda>x. snd (snd x) \<noteq> InRefreshToken) ws) = frames InGetToken ws"
  by (induction ws) (auto simp: frames_def)

lemma frames_connect:
  "filter (\<lambda>x. snd (snd x) \<noteq> InRefreshToken \<and> snd (snd x) \<noteq> InGetToken) ws =
     frames InConnect ws"
proof (induction ws)
  case Nil
  show ?case by (simp add: frames_def)
next
  case (Cons x ws)
  then show ?case by (cases "snd (snd x)") (simp_all add: frames_def)
qed

lemma by_depth_same:
  "by_depth (map (\<lambda>x. (p, g x, f)) cs) = map (\<lambda>x. (p, g x, f)) cs"
  by (cases f) (simp_all add: by_depth_def frames_def comp_def)

lemma by_depth_snoc_connect:
  "by_depth (ws @ [(p, c, InConnect)]) = by_depth ws @ [(p, c, InConnect)]"
  by (simp add: by_depth_def frames_def)

lemma by_depth_Nil: "by_depth [] = []"
  by (simp add: by_depth_def frames_def)

lemma length_by_depth: "length (by_depth ws) = length ws"
proof (induction ws)
  case Nil
  show ?case by (simp add: by_depth_Nil)
next
  case (Cons x ws)
  then show ?case by (cases "snd (snd x)") (simp_all add: by_depth_def frames_def)
qed

lemma resume_refreshToken_failed:
  assumes "\<And>w. refreshToken_resumed ms awaited w = (Inl e, w)"
  shows "resume_refreshToken ms awaited ws w =
           (map (\<lambda>x. (fst (snd x), snd (snd x), Inl e))
              (filter (\<lambda>x. snd (snd x) \<noteq> InRefreshToken) ws),
            w\<lparr>finished := finished w @ map (\<lambda>x. (fst (snd x), Failed e)) (frames InRefreshToken ws)\<rparr>)"
proof (induction ws arbitrary: w)
  case Nil
  show ?case by (simp add: frames_Nil)
next
  case (Cons x ws)
  obtain p c f where x: "x = (p, c, f)" by (cases x)
  show ?case by (simp add: x assms Cons.IH finish_def frames_Cons)
qed

lemma resume_getToken_failed:
  "resume_getToken (map (\<lambda>x. (fst (snd x), snd (snd x), Inl e)) ys) w =
     (map (\<lambda>x. (fst (snd x), Inl e)) (filter (\<lambda>x. snd (snd x) \<noteq> InGetToken) ys),
      w\<lparr>finished := finished w @ map (\<lambda>x. (fst (snd x), Failed e)) (frames InGetToken ys)\<rparr>)"
proof (induction ys arbitrary: w)
  case Nil
  show ?case by (simp add: frames_Nil)
next
  case (Cons x ys)
  obtain p c f where x: "x = (p, c, f)" by (cases x)
  show ?case by (simp add: x Cons.IH finish_def frames_Cons getToken_resumed_def)
qed

lemma resume_connect_failed:
  "resume_connect (map (\<lambda>x. (fst (snd x), Inl e)) zs) w =
     w\<lparr>finished := finished w @ map (\<lambda>x. (fst (snd x), Failed e)) zs\<rparr>"
proof (induction zs arbitrary: w)
  case Nil
  show ?case by simp
next
  case (Cons x zs)
  show ?case by (simp add: Cons.IH finish_def connect_resumed_def)
qed

lemma resume_all_failed:
  assumes "\<And>w. refreshToken_resumed ms awaited w = (Inl e, w)"
  shows "resume_all ms awaited ws w =
           w\<lparr>finished := finished w @ map (\<lambda>x. (fst (snd x), Failed e)) (by_depth ws)\<rparr>"
  by (simp add: resume_all_def resume_refreshToken_failed [OF assms] resume_getToken_failed
                resume_connect_failed frames_not_refreshToken frames_connect by_depth_def)

lemma resume_all_rejected:
  "resume_all ms (Inl e) ws w =
     w\<lparr>finished := finished w @ map (\<lambda>x. (fst (snd x), Failed e)) (by_depth ws)\<rparr>"
  by (rule resume_all_failed) (simp add: refreshToken_resumed_def)

lemma resume_all_undefined:
  "resume_all ms (Inr None) ws w =
     w\<lparr>finished := finished w
          @ map (\<lambda>x. (fst (snd x), Failed (ErrorGettingToken In_refreshToken))) (by_depth ws)\<rparr>"
  by (rule resume_all_failed) (simp add: refreshToken_resumed_def)

lemma resume_refreshToken_resolved:
  "resume_refreshToken ms (Inr (Some t)) ws w =
     (map (\<lambda>x. (fst (snd x), snd (snd x), Inr t))
        (filter (\<lambda>x. snd (snd x) \<noteq> InRefreshToken) ws),
      w\<lparr>tokenStorage := (if ws = [] then tokenStorage w else Some t),
         calls := calls w @ map (\<lambda>x. ScheduleNextRefresh (getRefreshDelay ms t)) ws,
         finished := finished w
           @ map (\<lambda>x. (fst (snd x), Token (Some t))) (frames InRefreshToken ws)\<rparr>)"
proof (induction ws arbitrary: w)
  case Nil
  show ?case by (simp add: frames_Nil)
next
  case (Cons x ws)
  obtain p c f where x: "x = (p, c, f)" by (cases x)
  show ?case
    by (simp add: x Cons.IH finish_def frames_Cons refreshToken_resumed_def storage_set_def
                  invoke_def)
qed

lemma resume_getToken_resolved:
  "resume_getToken (map (\<lambda>x. (fst (snd x), snd (snd x), Inr t)) ys) w =
     (map (\<lambda>x. (fst (snd x), Inr (Some t))) (filter (\<lambda>x. snd (snd x) \<noteq> InGetToken) ys),
      w\<lparr>tokenStorage := (if ys = [] then tokenStorage w else Some t),
         finished := finished w
           @ map (\<lambda>x. (fst (snd x), Token (Some t))) (frames InGetToken ys)\<rparr>)"
proof (induction ys arbitrary: w)
  case Nil
  show ?case by (simp add: frames_Nil)
next
  case (Cons x ys)
  obtain p c f where x: "x = (p, c, f)" by (cases x)
  show ?case
    by (simp add: x Cons.IH finish_def frames_Cons getToken_resumed_def storage_set_def)
qed

lemma resume_connect_resolved:
  "resume_connect (map (\<lambda>x. (fst (snd x), Inr (Some t))) zs) w =
     w\<lparr>tokenStorage := (if zs = [] then tokenStorage w else Some t),
        calls := calls w @ map (\<lambda>x. ClientConnect) zs,
        finished := finished w @ map (\<lambda>x. (fst (snd x), Delegated ClientConnect)) zs\<rparr>"
proof (induction zs arbitrary: w)
  case Nil
  show ?case by simp
next
  case (Cons x zs)
  show ?case
    by (simp add: Cons.IH finish_def connect_resumed_def storage_set_def invoke_def)
qed

lemma map_resolved_outcome:
  "map (\<lambda>x. (fst (snd x), resolved_outcome t (snd (snd x)))) (by_depth ws) =
     map (\<lambda>x. (fst (snd x), Token (Some t))) (frames InRefreshToken ws)
     @ map (\<lambda>x. (fst (snd x), Token (Some t))) (frames InGetToken ws)
     @ map (\<lambda>x. (fst (snd x), Delegated ClientConnect)) (frames InConnect ws)"
  by (simp add: by_depth_def frames_def)

lemma resume_all_resolved:
  "resume_all ms (Inr (Some t)) ws w =
     w\<lparr>tokenStorage := (if ws = [] then tokenStorage w else Some t),
        calls := calls w @ map (\<lambda>x. ScheduleNextRefresh (getRefreshDelay ms t)) ws
                 @ map (\<lambda>x. ClientConnect) (frames InConnect ws),
        finished := finished w
          @ map (\<lambda>x. (fst (snd x), resolved_outcome t (snd (snd x)))) (by_depth ws)\<rparr>"
proof (cases "ws = []")
  case True
  then show ?thesis by (simp add: resume_all_def by_depth_Nil frames_Nil)
next
  case False
  then show ?thesis
    by (simp add: resume_all_def resume_refreshToken_resolved resume_getToken_resolved
                  resume_connect_resolved frames_not_refreshToken frames_connect
                  map_resolved_outcome)
qed

lemma resume_all_frame:
  "tokenPromise (resume_all ms a ws w) = tokenPromise w
   \<and> firstCall (resume_all ms a ws w) = firstCall w
   \<and> inflight (resume_all ms a ws w) = inflight w
   \<and> waiting (resume_all ms a ws w) = waiting w
   \<and> nextPromise (resume_all ms a ws w) = nextPromise w
   \<and> apiKey (resume_all ms a ws w) = apiKey w
   \<and> delayBuffer (resume_all ms a ws w) = delayBuffer w"
proof (cases a)
  case (Inl e)
  then show ?thesis by (simp add: resume_all_rejected)
next
  case (Inr v)
  then show ?thesis
    by (cases v) (simp_all add: resume_all_undefined resume_all_resolved)
qed

subsection \<open>The invariant\<close>

lemma list_all_False: "list_all (\<lambda>x. False) ws = (ws = [])"
  by (cases ws) simp_all

lemma wf_constructor: "wf (constructor params)"
  by (simp add: wf_def constructor_def)

lemma fetchToken_effect:
  assumes "fetchToken w = (p, w')"
  shows "tokenPromise w' = Some p"
    and "tokenStorage w' = tokenStorage w"
    and "firstCall w' = firstCall w"
    and "finished w' = finished w"
    and "waiting w' = waiting w"
    and "apiKey w' = apiKey w"
    and "delayBuffer w' = delayBuffer w"
    and "calls w' = calls w @ (if tokenPromise w = None then [GetNewApiToken (apiKey w)] else [])"
    and "wf w \<Longrightarrow> wf w'"
  using assms
  by (auto simp: fetchToken_def invoke_def wf_def Let_def list_all_False split: option.splits)

lemma wf_suspend:
  "wf w \<Longrightarrow> tokenPromise w = Some p \<Longrightarrow> wf (suspend p c f w)"
  by (simp add: wf_def suspend_def split: option.splits)

lemma wf_finish: "wf w \<Longrightarrow> wf (finish c out w)"
  by (simp add: wf_def finish_def split: option.splits)

lemma wf_invoke: "wf w \<Longrightarrow> wf (invoke c w)"
  by (simp add: wf_def invoke_def split: option.splits)

lemma wf_storage_set: "wf w \<Longrightarrow> wf (storage_set t w)"
  by (simp add: wf_def storage_set_def split: option.splits)

lemma wf_firstCall: "wf w \<Longrightarrow> wf (w\<lparr>firstCall := b\<rparr>)"
  by (simp add: wf_def split: option.splits)

lemma not_expiring_Some: "\<not> isExpiring ms v \<Longrightarrow> \<exists>t. v = Some t"
  by (cases v) (simp_all add: isExpiring_def)

lemma getToken_expiring:
  "isExpiring ms (tokenStorage w) \<Longrightarrow>
     getToken ms w = (Awaiting (fst (fetchToken (w\<lparr>firstCall := False\<rparr>))),
                      snd (fetchToken (w\<lparr>firstCall := False\<rparr>)))"
  by (simp add: getToken_def storage_get_def split_beta)

lemma getToken_fresh:
  "tokenStorage w = Some t \<Longrightarrow> \<not> isExpiring ms (Some t) \<Longrightarrow>
     getToken ms w =
       (Returned (Some t),
        if firstCall w
        then w\<lparr>firstCall := False,
               calls := calls w @ [ScheduleNextRefresh (getRefreshDelay ms t)]\<rparr>
        else w)"
  by (simp add: getToken_def storage_get_def invoke_def)

lemma getToken_wf:
  assumes "getToken ms w = (r, w')" and "wf w"
  shows "wf w'" and "r = Awaiting p \<Longrightarrow> tokenPromise w' = Some p"
proof -
  have "wf w' \<and> (r = Awaiting p \<longrightarrow> tokenPromise w' = Some p)"
  proof (cases "isExpiring ms (tokenStorage w)")
    case True
    obtain q w1 where f: "fetchToken (w\<lparr>firstCall := False\<rparr>) = (q, w1)"
      by (cases "fetchToken (w\<lparr>firstCall := False\<rparr>)")
    from assms(1) f have "w' = w1" "r = Awaiting q"
      by (simp_all add: getToken_expiring [OF True])
    with fetchToken_effect(1,9) [OF f] wf_firstCall [OF assms(2)] show ?thesis by simp
  next
    case False
    then obtain t where t: "tokenStorage w = Some t" using not_expiring_Some by blast
    with False have "\<not> isExpiring ms (Some t)" by simp
    from getToken_fresh [OF t this] assms show ?thesis
      by (auto simp: wf_def split: if_splits option.splits)
  qed
  then show "wf w'" and "r = Awaiting p \<Longrightarrow> tokenPromise w' = Some p" by simp_all
qed

lemma connect_resumed_wf: "connect_resumed a w = (out, w') \<Longrightarrow> wf w \<Longrightarrow> wf w'"
  by (auto simp: connect_resumed_def wf_def invoke_def storage_set_def split: sum.splits option.splits)

lemma wf_call_method: "wf w \<Longrightarrow> wf (call_method ms c m w)"
proof (cases m)
  case Connect
  assume w: "wf w"
  obtain r w1 where g: "getToken ms w = (r, w1)" by (cases "getToken ms w")
  note g1 = getToken_wf [OF g w]
  show ?thesis
  proof (cases r)
    case (Returned v)
    obtain out w2 where c: "connect_resumed (Inr v) w1 = (out, w2)"
      by (cases "connect_resumed (Inr v) w1")
    from connect_resumed_wf [OF c g1(1)] show ?thesis
      by (simp add: Connect g Returned c wf_finish)
  next
    case (Threw e)
    obtain out w2 where c: "connect_resumed (Inl e) w1 = (out, w2)"
      by (cases "connect_resumed (Inl e) w1")
    from connect_resumed_wf [OF c g1(1)] show ?thesis
      by (simp add: Connect g Threw c wf_finish)
  next
    case (Awaiting p)
    with g1 show ?thesis by (simp add: Connect g wf_suspend)
  qed
next
  case Reconnect
  assume "wf w"
  then show ?thesis by (simp add: Reconnect reconnect_def wf_finish wf_invoke)
next
  case Disconnect
  assume "wf w"
  then show ?thesis by (simp add: Disconnect disconnect_def wf_finish wf_invoke)
next
  case GetToken
  assume w: "wf w"
  obtain r w1 where g: "getToken ms w = (r, w1)" by (cases "getToken ms w")
  note g1 = getToken_wf [OF g w]
  show ?thesis
  proof (cases r)
    case (Returned v)
    with g1 show ?thesis by (simp add: GetToken g wf_finish)
  next
    case (Threw e)
    with g1 show ?thesis by (simp add: GetToken g wf_finish)
  next
    case (Awaiting p)
    with g1 show ?thesis by (simp add: GetToken g wf_suspend)
  qed
next
  case RefreshToken
  assume w: "wf w"
  obtain p w1 where f: "fetchToken w = (p, w1)" by (cases "fetchToken w")
  from fetchToken_effect(1) [OF f] fetchToken_effect(9) [OF f w] show ?thesis
    by (simp add: RefreshToken f wf_suspend)
qed

lemma wf_resume_all: "wf w \<Longrightarrow> wf (resume_all ms a ws w)"
  by (simp add: wf_def resume_all_frame split: option.splits)

lemma filter_other_waiting:
  "list_all (\<lambda>x. Some p = Some (fst x)) ws \<Longrightarrow> filter (\<lambda>x. fst x \<noteq> p) ws = []"
  by (induction ws) auto

lemma filter_same_waiting:
  "list_all (\<lambda>x. Some p = Some (fst x)) ws \<Longrightarrow> filter (\<lambda>x. fst x = p) ws = ws"
  by (induction ws) auto

lemma settle_inflight:
  assumes "wf w" and "tokenPromise w = Some p"
  shows "settle ms p res w =
           resume_all ms (case res of Inl reason \<Rightarrow> Inl (ExchangeError reason) | Inr v \<Rightarrow> Inr v)
             (waiting w) (w\<lparr>inflight := [], tokenPromise := None, waiting := []\<rparr>)"
  using assms
  by (cases res)
     (simp_all add: settle_def wf_def fetchToken_settled_def filter_other_waiting filter_same_waiting)

lemma settle_wf: "wf w \<Longrightarrow> wf (settle ms p res w)"
proof (cases "p \<in> set (inflight w)")
  case True
  assume w: "wf w"
  with True have tp: "tokenPromise w = Some p"
    by (auto simp: wf_def split: option.splits)
  show ?thesis
    unfolding settle_inflight [OF w tp]
    by (rule wf_resume_all) (simp add: wf_def)
next
  case False
  assume "wf w"
  with False show ?thesis by (simp add: settle_def)
qed

lemma wf_step: "wf w \<Longrightarrow> wf (step ms e w)"
  by (cases e) (simp_all add: wf_call_method settle_wf)

lemma wf_exec: "wf w \<Longrightarrow> wf (exec w es)"
  by (induction es arbitrary: w) (auto simp: wf_step)

lemma wf_reachable: "wf (exec (constructor params) es)"
  by (simp add: wf_exec wf_constructor)


lemma call_connect_expiring:
  assumes "isExpiring ms (tokenStorage w)"
  shows "call_method ms c Connect w =
           suspend (fst (fetchToken (w\<lparr>firstCall := False\<rparr>))) c InConnect
             (snd (fetchToken (w\<lparr>firstCall := False\<rparr>)))"
  by (simp add: getToken_expiring [OF assms])

lemma call_getToken_expiring:
  assumes "isExpiring ms (tokenStorage w)"
  shows "call_method ms c GetToken w =
           suspend (fst (fetchToken (w\<lparr>firstCall := False\<rparr>))) c InGetToken
             (snd (fetchToken (w\<lparr>firstCall := False\<rparr>)))"
  by (simp add: getToken_expiring [OF assms])

lemma suspended_expiring:
  assumes "wf w" and "w1 = suspend (fst (fetchToken (w\<lparr>firstCall := False\<rparr>))) c f
             (snd (fetchToken (w\<lparr>firstCall := False\<rparr>)))"
  shows "wf w1"
    and "waiting w1 = waiting w @ [(the (tokenPromise w1), c, f)]"
    and "tokenPromise w1 \<noteq> None"
    and "finished w1 = finished w"
    and "tokenStorage w1 = tokenStorage w"
    and "calls w1 = calls w @ (if tokenPromise w = None then [GetNewApiToken (apiKey w)] else [])"
proof -
  obtain q w' where f: "fetchToken (w\<lparr>firstCall := False\<rparr>) = (q, w')"
    by (cases "fetchToken (w\<lparr>firstCall := False\<rparr>)")
  note e = fetchToken_effect [OF f]
  have w1: "w1 = suspend q c f w'" using assms(2) f by simp
  show "wf w1" using e(1) e(9) [OF wf_firstCall [OF assms(1)]] by (simp add: w1 wf_suspend)
  show "waiting w1 = waiting w @ [(the (tokenPromise w1), c, f)]"
    using e(1,5) by (simp add: w1 suspend_def)
  show "tokenPromise w1 \<noteq> None" using e(1) by (simp add: w1 suspend_def)
  show "finished w1 = finished w" using e(4) by (simp add: w1 suspend_def)
  show "tokenStorage w1 = tokenStorage w" using e(2) by (simp add: w1 suspend_def)
  show "calls w1 = calls w @ (if tokenPromise w = None then [GetNewApiToken (apiKey w)] else [])"
    using e(8) by (simp add: w1 suspend_def)
qed

lemma armed_append:
  "armed (cs @ ds) = (case armed ds of None \<Rightarrow> armed cs | Some d \<Rightarrow> Some d)"
  by (induction cs rule: armed.induct) (auto split: option.splits)

subsection \<open>Collaborator calls of resumed calls\<close>

lemma resumed_calls_no_exchange:
  "filter is_exchange (map (\<lambda>x. ScheduleNextRefresh d) ws @ map (\<lambda>x. ClientConnect) zs) = []"
  by (simp add: filter_map comp_def)

lemma armed_connects: "armed (map (\<lambda>x. ClientConnect) zs) = None"
  by (induction zs) simp_all

lemma armed_schedules: "ws \<noteq> [] \<Longrightarrow> armed (map (\<lambda>x. ScheduleNextRefresh d) ws) = Some d"
proof (induction ws)
  case Nil
  then show ?case by simp
next
  case (Cons x ws)
  then show ?case by (cases "ws = []") simp_all
qed

lemma armed_resumed:
  "ws \<noteq> [] \<Longrightarrow>
     armed (cs @ map (\<lambda>x. ScheduleNextRefresh d) ws @ map (\<lambda>x. ClientConnect) zs) = Some d"
  by (simp add: armed_append armed_connects armed_schedules)

subsection \<open>Calls of \<open>refreshToken\<close>\<close>

lemma refreshToken_first:
  "tokenPromise w = None \<Longrightarrow>
     call_method ms c RefreshToken w =
       w\<lparr>tokenPromise := Some (nextPromise w),
          calls := calls w @ [GetNewApiToken (apiKey w)],
          inflight := inflight w @ [nextPromise w],
          waiting := waiting w @ [(nextPromise w, c, InRefreshToken)],
          nextPromise := nextPromise w + 1\<rparr>"
  by (simp add: fetchToken_def invoke_def suspend_def Let_def)

lemma refreshToken_pending:
  "tokenPromise w = Some p \<Longrightarrow>
     call_method ms c RefreshToken w = w\<lparr>waiting := waiting w @ [(p, c, InRefreshToken)]\<rparr>"
  by (simp add: fetchToken_def suspend_def)

lemma refreshTokens_pending:
  "tokenPromise w = Some p \<Longrightarrow>
     exec w (map (\<lambda>x. (fst x, Call (snd x) RefreshToken)) cs) =
       w\<lparr>waiting := waiting w @ map (\<lambda>x. (p, snd x, InRefreshToken)) cs\<rparr>"
proof (induction cs arbitrary: w)
  case Nil
  show ?case by simp
next
  case (Cons x cs)
  obtain ms c where x: "x = (ms, c)" by (cases x)
  have "tokenPromise (w\<lparr>waiting := waiting w @ [(p, c, InRefreshToken)]\<rparr>) = Some p"
    using Cons.prems by simp
  from Cons.IH [OF this] show ?case
    by (simp add: x refreshToken_pending [OF Cons.prems] del: call_method.simps)
qed

subsection \<open>The first-call flag\<close>

lemma fetchToken_firstCall: "firstCall (snd (fetchToken w)) = firstCall w"
  by (simp add: fetchToken_def invoke_def Let_def split: option.splits)

lemma getToken_consumes: "firstCall (snd (getToken ms w)) = False"
proof (cases "isExpiring ms (tokenStorage w)")
  case True
  show ?thesis by (simp add: getToken_expiring [OF True] fetchToken_firstCall)
next
  case False
  then obtain t where t: "tokenStorage w = Some t" using not_expiring_Some by blast
  with False have "\<not> isExpiring ms (Some t)" by simp
  from getToken_fresh [OF t this] show ?thesis by simp
qed

lemma connect_resumed_firstCall: "firstCall (snd (connect_resumed a w)) = firstCall w"
  by (simp add: connect_resumed_def invoke_def storage_set_def split: sum.splits option.splits)

lemma call_method_firstCall:
  "firstCall (call_method ms c m w) = (firstCall w \<and> \<not> runs_getToken (Call c m))"
proof (cases m)
  case Connect
  obtain r w1 where g: "getToken ms w = (r, w1)" by (cases "getToken ms w")
  with getToken_consumes [of ms w] have f: "firstCall w1 = False" by simp
  show ?thesis
  proof (cases r)
    case (Returned v)
    with connect_resumed_firstCall [of "Inr v" w1] f show ?thesis
      by (simp add: Connect g finish_def split_beta)
  next
    case (Threw e)
    with connect_resumed_firstCall [of "Inl e" w1] f show ?thesis
      by (simp add: Connect g finish_def split_beta)
  next
    case (Awaiting p)
    with f show ?thesis by (simp add: Connect g suspend_def)
  qed
next
  case Reconnect
  show ?thesis by (simp add: Reconnect reconnect_def finish_def invoke_def)
next
  case Disconnect
  show ?thesis by (simp add: Disconnect disconnect_def finish_def invoke_def)
next
  case GetToken
  obtain r w1 where g: "getToken ms w = (r, w1)" by (cases "getToken ms w")
  with getToken_consumes [of ms w] have f: "firstCall w1 = False" by simp
  then show ?thesis
    by (cases r) (simp_all add: GetToken g finish_def suspend_def)
next
  case RefreshToken
  from fetchToken_firstCall [of w] show ?thesis
    by (simp add: RefreshToken suspend_def split_beta)
qed

lemma settle_firstCall: "firstCall (settle ms p res w) = firstCall w"
  by (cases res) (simp_all add: settle_def fetchToken_settled_def resume_all_frame)

lemma step_firstCall: "firstCall (step ms e w) = (firstCall w \<and> \<not> runs_getToken e)"
  by (cases e) (simp_all add: call_method_firstCall settle_firstCall del: call_method.simps)

lemma exec_firstCall:
  "firstCall (exec w es) = (firstCall w \<and> \<not> list_ex (\<lambda>x. runs_getToken (snd x)) es)"
proof (induction es arbitrary: w)
  case Nil
  show ?case by simp
next
  case (Cons x es)
  obtain ms e where x: "x = (ms, e)" by (cases x)
  show ?case by (simp add: x Cons.IH step_firstCall del: step.simps)
qed

subsection \<open>Outcomes of calls\<close>











text \<open>
  When an exchange does resolve with \<open>undefined\<close>, the throw statement of \<open>refreshToken\<close>
  is reached, and every call that awaited the exchange is rejected with its error.
\<close>

lemma undefined_exchange_reaches_throw:
  "(let params = \<lparr>params_apiKey = ''abc123'', params_tokenStorage = None,
                    params_delayBuffer = None\<rparr>;
        w = exec (constructor params)
              [(0, Call 1 Connect), (0, Call 2 RefreshToken), (5, Settle 0 (Inr None))]
    in finished w = [(2, Failed (ErrorGettingToken In_refreshToken)),
                     (1, Failed (ErrorGettingToken In_refreshToken))]
       \<and> tokenStorage w = None \<and> tokenPromise w = None
       \<and> calls w = [SetTokenStorage, GetNewApiToken ''abc123''])"
  by (simp add: connector_defs settle_def resume_all_def Let_def)

subsection \<open>The claims\<close>

text \<open>
  C1 (the code departs from it). The delay handed to the scheduler is
  \<open>(expires_at - now) * 0.9\<close> with the literal \<open>0.9\<close>: \<open>getRefreshDelay\<close> never reads the
  \<open>delayBuffer\<close> field that the constructor fills from its parameter. With
  \<open>delayBuffer = 0.5\<close> and a token that expires in 1000 seconds, both arming paths (the
  \<open>refreshToken\<close> path and the first-call path of \<open>getToken\<close>) schedule 900 seconds,
  where \<open>(expires_at - now) * delayBuffer\<close> is 500.
\<close>

theorem getRefreshDelay_ignores_delayBuffer:
  "(let params = \<lparr>params_apiKey = ''abc123'', params_tokenStorage = None,
                    params_delayBuffer = Some (1 / 2)\<rparr>;
        t = \<lparr>token = ''tok1'', expires_at = 1000\<rparr>;
        w = exec (constructor params) [(0, Call 0 RefreshToken), (0, Settle 0 (Inr (Some t)))];
        w' = exec (constructor (params\<lparr>params_tokenStorage := Some t\<rparr>)) [(0, Call 0 GetToken)]
    in delayBuffer w = 1 / 2 \<and> delayBuffer w' = 1 / 2
       \<and> (expires_at t - seconds 0) * delayBuffer w = 500
       \<and> calls w = [SetTokenStorage, GetNewApiToken ''abc123'', ScheduleNextRefresh 900]
       \<and> calls w' = [SetTokenStorage, ScheduleNextRefresh 900])"
  by (simp add: connector_defs settle_def resume_all_def Let_def)

text \<open>
  C2. A \<open>connect()\<close> that needs the token exchange (the stored token is absent or
  expiring) awaits the promise in \<open>tokenPromise\<close>. When that exchange rejects, in whatever
  state the connector was before the call: the calls that were already waiting are
  rejected with the reason of the exchange, in the order \<open>by_depth\<close>, and then \<open>connect()\<close>
  is rejected with it (the failure the spec calls TokenAcquisitionError); the only
  collaborator call made is the exchange itself, if none was in flight, so the client's
  \<open>connect()\<close> is not invoked; the token store holds what it held.
\<close>

theorem connect_exchange_rejected:
  fixes params es ms c ms' p reason
  defines "w \<equiv> exec (constructor params) es"
  defines "w1 \<equiv> step ms (Call c Connect) w"
  defines "w2 \<equiv> step ms' (Settle p (Inl reason)) w1"
  assumes "isExpiring ms (tokenStorage w)" and "tokenPromise w1 = Some p"
  shows "finished w2 =
           finished w
             @ map (\<lambda>x. (fst (snd x), Failed (ExchangeError reason))) (by_depth (waiting w))
             @ [(c, Failed (ExchangeError reason))]
         \<and> calls w2 = calls w @ (if tokenPromise w = None then [GetNewApiToken (apiKey w)] else [])
         \<and> filter (\<lambda>x. x = ClientConnect) (calls w2) = filter (\<lambda>x. x = ClientConnect) (calls w)
         \<and> tokenStorage w2 = tokenStorage w
         \<and> tokenPromise w2 = None"
proof -
  have wf: "wf w" unfolding w_def by (rule wf_reachable)
  have w1: "w1 = suspend (fst (fetchToken (w\<lparr>firstCall := False\<rparr>))) c InConnect
                   (snd (fetchToken (w\<lparr>firstCall := False\<rparr>)))"
    unfolding w1_def using call_connect_expiring [OF assms(4)] by simp
  note s = suspended_expiring [OF wf w1]
  have w2: "w2 = resume_all ms' (Inl (ExchangeError reason)) (waiting w1)
                   (w1\<lparr>inflight := [], tokenPromise := None, waiting := []\<rparr>)"
    unfolding w2_def using settle_inflight [OF s(1) assms(5)] by simp
  show ?thesis
    using s(2,4,5,6) assms(5) by (simp add: w2 resume_all_rejected by_depth_snoc_connect)
qed

theorem connect_exchange_rejected_witness:
  "(let params = \<lparr>params_apiKey = ''abc123'', params_tokenStorage = None,
                    params_delayBuffer = None\<rparr>;
        w = exec (constructor params) [(0, Call 1 Connect), (0, Call 2 RefreshToken)];
        w1 = step 0 (Call 3 Connect) w;
        w2 = step 5 (Settle 0 (Inl ''unauthorized'')) w1
    in isExpiring 0 (tokenStorage w) \<and> tokenPromise w1 = Some 0
       \<and> finished w2 = [(2, Failed (ExchangeError ''unauthorized'')),
                         (1, Failed (ExchangeError ''unauthorized'')),
                         (3, Failed (ExchangeError ''unauthorized''))]
       \<and> calls w2 = [SetTokenStorage, GetNewApiToken ''abc123'']
       \<and> tokenStorage w2 = None)"
  using connect_exchange_rejected
          [where params = "\<lparr>params_apiKey = ''abc123'', params_tokenStorage = None,
                   params_delayBuffer = None\<rparr>"
             and es = "[(0, Call 1 Connect), (0, Call 2 RefreshToken)]"
             and ms = 0 and c = 3 and p = 0 and ms' = 5 and reason = "''unauthorized''"]
  by (simp add: connector_defs by_depth_def frames_def)

text \<open>
  C3. With a promise in \<open>tokenPromise\<close>, \<open>fetchToken\<close> returns that promise and changes
  nothing, so it starts no exchange; in every execution at most one exchange is in flight.
  When no fetch is in flight and \<open>refreshToken()\<close> is called N \<ge> 1 times before the
  exchange settles, exactly one exchange is started, all N calls await its promise, and
  when it resolves with a token every one of the N calls resolves with that token.
\<close>

theorem single_fetch_in_flight:
  fixes params es cs ms' t es' w' p'
  defines "w \<equiv> exec (constructor params) es"
  defines "w1 \<equiv> exec w (map (\<lambda>x. (fst x, Call (snd x) RefreshToken)) cs)"
  defines "w2 \<equiv> step ms' (Settle (nextPromise w) (Inr (Some t))) w1"
  assumes "tokenPromise w = None" and "cs \<noteq> []"
  shows "fetchToken (w'\<lparr>tokenPromise := Some p'\<rparr>) = (p', w'\<lparr>tokenPromise := Some p'\<rparr>)
         \<and> length (inflight (exec (constructor params) es')) \<le> 1
         \<and> calls w1 = calls w @ [GetNewApiToken (apiKey w)]
         \<and> inflight w1 = [nextPromise w]
         \<and> waiting w1 = map (\<lambda>x. (nextPromise w, snd x, InRefreshToken)) cs
         \<and> filter is_exchange (calls w2) = filter is_exchange (calls w) @ [GetNewApiToken (apiKey w)]
         \<and> finished w2 = finished w @ map (\<lambda>x. (snd x, Token (Some t))) cs
         \<and> tokenStorage w2 = Some t"
proof -
  have wf: "wf w" unfolding w_def by (rule wf_reachable)
  have empty: "waiting w = []" "inflight w = []"
    using wf assms(4) by (simp_all add: wf_def list_all_False)
  obtain x cs' where cs: "cs = x # cs'" using assms(5) by (cases cs) auto
  obtain ms c where x: "x = (ms, c)" by (cases x)
  define v where "v = call_method ms c RefreshToken w"
  have v: "v = w\<lparr>tokenPromise := Some (nextPromise w),
          calls := calls w @ [GetNewApiToken (apiKey w)],
          inflight := inflight w @ [nextPromise w],
          waiting := waiting w @ [(nextPromise w, c, InRefreshToken)],
          nextPromise := nextPromise w + 1\<rparr>"
    unfolding v_def by (rule refreshToken_first [OF assms(4)])
  have tp: "tokenPromise v = Some (nextPromise w)" by (simp add: v)
  have "w1 = exec v (map (\<lambda>x. (fst x, Call (snd x) RefreshToken)) cs')"
    unfolding w1_def v_def by (simp add: cs x del: call_method.simps)
  then have w1: "w1 = v\<lparr>waiting := waiting v @ map (\<lambda>x. (nextPromise w, snd x, InRefreshToken)) cs'\<rparr>"
    using refreshTokens_pending [OF tp] by simp
  have wait: "waiting w1 = map (\<lambda>x. (nextPromise w, snd x, InRefreshToken)) cs"
    by (simp add: w1 v empty cs x)
  have wf1: "wf w1" unfolding w1_def by (rule wf_exec [OF wf])
  have tp1: "tokenPromise w1 = Some (nextPromise w)" by (simp add: w1 v)
  have w2: "w2 = resume_all ms' (Inr (Some t)) (waiting w1)
                   (w1\<lparr>inflight := [], tokenPromise := None, waiting := []\<rparr>)"
    unfolding w2_def using settle_inflight [OF wf1 tp1] by simp
  have c1: "calls w1 = calls w @ [GetNewApiToken (apiKey w)]" by (simp add: w1 v)
  have "fetchToken (w'\<lparr>tokenPromise := Some p'\<rparr>) = (p', w'\<lparr>tokenPromise := Some p'\<rparr>)"
    by (simp add: fetchToken_def)
  moreover have "length (inflight (exec (constructor params) es')) \<le> 1"
    using wf_reachable [of params es'] by (simp add: wf_def split: option.splits)
  moreover have "inflight w1 = [nextPromise w]" by (simp add: w1 v empty)
  moreover have "filter is_exchange (calls w2) = filter is_exchange (calls w) @ [GetNewApiToken (apiKey w)]"
    using resumed_calls_no_exchange
            [of "getRefreshDelay ms' t" "waiting w1" "frames InConnect (waiting w1)"]
    by (simp add: w2 resume_all_resolved c1)
  moreover have "finished w2 = finished w @ map (\<lambda>x. (snd x, Token (Some t))) cs"
  proof -
    have "finished w1 = finished w" by (simp add: w1 v)
    moreover have "finished w2 =
        finished w1
          @ map (\<lambda>x. (fst (snd x), resolved_outcome t (snd (snd x)))) (by_depth (waiting w1))"
      by (simp add: w2 resume_all_resolved)
    ultimately show ?thesis by (simp add: wait by_depth_same comp_def)
  qed
  moreover have "tokenStorage w2 = Some t"
    using assms(5) by (simp add: w2 resume_all_resolved wait)
  ultimately show ?thesis using c1 wait by simp
qed

theorem single_fetch_in_flight_witness:
  "(let params = \<lparr>params_apiKey = ''abc123'', params_tokenStorage = None,
                    params_delayBuffer = None\<rparr>;
        t = \<lparr>token = ''tok1'', expires_at = 1000\<rparr>;
        cs = [(0, 1), (1, 2), (2, 3)];
        w = exec (constructor params) [];
        w1 = exec w (map (\<lambda>x. (fst x, Call (snd x) RefreshToken)) cs);
        w2 = step 5 (Settle (nextPromise w) (Inr (Some t))) w1
    in tokenPromise w = None \<and> cs \<noteq> []
       \<and> calls w1 = [SetTokenStorage, GetNewApiToken ''abc123'']
       \<and> filter is_exchange (calls w2) = [GetNewApiToken ''abc123'']
       \<and> finished w2 = [(1, Token (Some t)), (2, Token (Some t)), (3, Token (Some t))])"
  using single_fetch_in_flight
          [where params = "\<lparr>params_apiKey = ''abc123'', params_tokenStorage = None,
                   params_delayBuffer = None\<rparr>"
             and es = "[]" and cs = "[(0, 1), (1, 2), (2, 3)]" and ms' = 5
             and t = "\<lparr>token = ''tok1'', expires_at = 1000\<rparr>"]
  by (simp add: connector_defs)

text \<open>
  C4. \<open>isExpiring\<close> of a token is true exactly when its \<open>expires_at\<close> is at most the
  current time in seconds (\<open>Date.now() / 1000\<close>); \<open>isExpiring\<close> of an absent token is true.
\<close>

theorem isExpiring_iff:
  "isExpiring ms (Some t) = (expires_at t \<le> real_of_int ms / 1000) \<and> isExpiring ms None"
  by (simp add: isExpiring_def seconds_def)

text \<open>
  C5. A \<open>getToken()\<close> that finds the stored token absent or expiring awaits a token
  exchange: it starts one unless one is already in flight, and does not return before the
  exchange settles. When the exchange resolves with a token, that token is stored, the
  scheduler is armed for it, no further exchange is started, and \<open>getToken()\<close> resolves
  with that token, whatever the store held before. It ends after the calls of
  \<open>refreshToken\<close> and the earlier calls of \<open>getToken\<close> that awaited the same exchange, and
  before the calls of \<open>connect\<close> that did.
\<close>

theorem getToken_expired_fetches:
  fixes params es ms c ms' p t
  defines "w \<equiv> exec (constructor params) es"
  defines "w1 \<equiv> step ms (Call c GetToken) w"
  defines "w2 \<equiv> step ms' (Settle p (Inr (Some t))) w1"
  assumes "isExpiring ms (tokenStorage w)" and "tokenPromise w1 = Some p"
  shows "calls w1 = calls w @ (if tokenPromise w = None then [GetNewApiToken (apiKey w)] else [])
         \<and> inflight w1 = [p]
         \<and> finished w1 = finished w
         \<and> finished w2 =
             finished w
               @ map (\<lambda>x. (fst (snd x), Token (Some t)))
                   (frames InRefreshToken (waiting w) @ frames InGetToken (waiting w))
               @ [(c, Token (Some t))]
               @ map (\<lambda>x. (fst (snd x), Delegated ClientConnect)) (frames InConnect (waiting w))
         \<and> tokenStorage w2 = Some t
         \<and> armed (calls w2) = Some (getRefreshDelay ms' t)
         \<and> filter is_exchange (calls w2) = filter is_exchange (calls w1)"
proof -
  have wf: "wf w" unfolding w_def by (rule wf_reachable)
  have w1: "w1 = suspend (fst (fetchToken (w\<lparr>firstCall := False\<rparr>))) c InGetToken
                   (snd (fetchToken (w\<lparr>firstCall := False\<rparr>)))"
    unfolding w1_def using call_getToken_expiring [OF assms(4)] by simp
  note s = suspended_expiring [OF wf w1]
  have w2: "w2 = resume_all ms' (Inr (Some t)) (waiting w1)
                   (w1\<lparr>inflight := [], tokenPromise := None, waiting := []\<rparr>)"
    unfolding w2_def using settle_inflight [OF s(1) assms(5)] by simp
  have wait: "waiting w1 = waiting w @ [(p, c, InGetToken)]"
    using s(2) assms(5) by simp
  have ne: "waiting w1 \<noteq> []" by (simp add: wait)
  have "inflight w1 = [p]" using s(1) assms(5) by (simp add: wf_def)
  moreover have "finished w2 =
             finished w
               @ map (\<lambda>x. (fst (snd x), Token (Some t)))
                   (frames InRefreshToken (waiting w) @ frames InGetToken (waiting w))
               @ [(c, Token (Some t))]
               @ map (\<lambda>x. (fst (snd x), Delegated ClientConnect)) (frames InConnect (waiting w))"
    using s(4)
    by (simp add: w2 resume_all_resolved map_resolved_outcome wait frames_append frames_Cons
                  frames_Nil)
  moreover have "tokenStorage w2 = Some t"
    by (simp add: w2 resume_all_resolved wait)
  moreover have "calls w2 = calls w1
                   @ map (\<lambda>x. ScheduleNextRefresh (getRefreshDelay ms' t)) (waiting w1)
                   @ map (\<lambda>x. ClientConnect) (frames InConnect (waiting w1))"
    by (simp add: w2 resume_all_resolved)
  then have "armed (calls w2) = Some (getRefreshDelay ms' t)"
    and "filter is_exchange (calls w2) = filter is_exchange (calls w1)"
    using armed_resumed [OF ne]
          resumed_calls_no_exchange
            [of "getRefreshDelay ms' t" "waiting w1" "frames InConnect (waiting w1)"]
    by simp_all
  ultimately show ?thesis using s(4,6) by simp
qed

theorem getToken_expired_fetches_witness:
  "(let params = \<lparr>params_apiKey = ''abc123'',
                    params_tokenStorage = Some \<lparr>token = ''tokOld'', expires_at = 95\<rparr>,
                    params_delayBuffer = None\<rparr>;
        t = \<lparr>token = ''tokNew'', expires_at = 1100\<rparr>;
        w = exec (constructor params) [(100000, Call 1 Connect)];
        w1 = step 100000 (Call 2 GetToken) w;
        w2 = step 100000 (Settle 0 (Inr (Some t))) w1
    in isExpiring 100000 (tokenStorage w) \<and> tokenPromise w1 = Some 0
       \<and> calls w1 = [SetTokenStorage, GetNewApiToken ''abc123'']
       \<and> finished w2 = [(2, Token (Some t)), (1, Delegated ClientConnect)]
       \<and> tokenStorage w2 = Some t
       \<and> armed (calls w2) = Some 900)"
  using getToken_expired_fetches
          [where params = "\<lparr>params_apiKey = ''abc123'',
                    params_tokenStorage = Some \<lparr>token = ''tokOld'', expires_at = 95\<rparr>,
                    params_delayBuffer = None\<rparr>"
             and es = "[(100000, Call 1 Connect)]" and ms = 100000 and c = 2 and p = 0
             and ms' = 100000 and t = "\<lparr>token = ''tokNew'', expires_at = 1100\<rparr>"]
  by (simp add: connector_defs frames_def)

text \<open>
  C6. A \<open>getToken()\<close> that finds a stored token that is not expiring resolves at once
  with that token and leaves the store as it is. The first-call flag is set exactly when
  no \<open>getToken()\<close> has run on this connector before (called directly or through
  \<open>connect()\<close>); the call consumes it. With the flag set, the one collaborator call made is
  \<open>scheduleNextRefresh\<close> with the refresh delay of the stored token; with the flag
  consumed, on every later such call, no collaborator is called and the scheduler is not
  armed again.
\<close>

theorem getToken_fresh_arms_once:
  fixes params es ms c t
  defines "w \<equiv> exec (constructor params) es"
  defines "w1 \<equiv> step ms (Call c GetToken) w"
  assumes "tokenStorage w = Some t" and "\<not> isExpiring ms (Some t)"
  shows "finished w1 = finished w @ [(c, Token (Some t))]
         \<and> tokenStorage w1 = Some t
         \<and> firstCall w = (\<not> list_ex (\<lambda>x. runs_getToken (snd x)) es)
         \<and> firstCall w1 = False
         \<and> calls w1 = (if firstCall w
                        then calls w @ [ScheduleNextRefresh (getRefreshDelay ms t)]
                        else calls w)
         \<and> filter is_schedule (calls w1) =
             (if list_ex (\<lambda>x. runs_getToken (snd x)) es
              then filter is_schedule (calls w)
              else filter is_schedule (calls w) @ [ScheduleNextRefresh (getRefreshDelay ms t)])"
proof -
  have fc: "firstCall w = (\<not> list_ex (\<lambda>x. runs_getToken (snd x)) es)"
    unfolding w_def by (simp add: exec_firstCall constructor_def)
  have w1: "w1 = finish c (Token (Some t))
                  (if firstCall w
                   then w\<lparr>firstCall := False,
                          calls := calls w @ [ScheduleNextRefresh (getRefreshDelay ms t)]\<rparr>
                   else w)"
    unfolding w1_def using getToken_fresh [OF assms(3,4)] by simp
  show ?thesis using fc assms(3) by (simp add: w1 finish_def)
qed




theorem getToken_fresh_arms_once_witness:
  "(let params = \<lparr>params_apiKey = ''abc123'',
                    params_tokenStorage = Some \<lparr>token = ''tok1'', expires_at = 1000\<rparr>,
                    params_delayBuffer = None\<rparr>;
        t = \<lparr>token = ''tok1'', expires_at = 1000\<rparr>;
        w = exec (constructor params) [];
        w1 = step 0 (Call 1 GetToken) w;
        v = exec (constructor params) [(0, Call 1 GetToken)];
        v1 = step 500000 (Call 2 GetToken) v
    in tokenStorage w = Some t \<and> \<not> isExpiring 0 (Some t)
       \<and> tokenStorage v = Some t \<and> \<not> isExpiring 500000 (Some t)
       \<and> calls w1 = [SetTokenStorage, ScheduleNextRefresh 900]
       \<and> finished w1 = [(1, Token (Some t))]
       \<and> calls v1 = [SetTokenStorage, ScheduleNextRefresh 900]
       \<and> finished v1 = [(1, Token (Some t)), (2, Token (Some t))])"
  using getToken_fresh_arms_once
          [where params = "\<lparr>params_apiKey = ''abc123'',
                    params_tokenStorage = Some \<lparr>token = ''tok1'', expires_at = 1000\<rparr>,
                    params_delayBuffer = None\<rparr>"
             and es = "[]" and ms = 0 and c = 1 and t = "\<lparr>token = ''tok1'', expires_at = 1000\<rparr>"]
        getToken_fresh_arms_once
          [where params = "\<lparr>params_apiKey = ''abc123'',
                    params_tokenStorage = Some \<lparr>token = ''tok1'', expires_at = 1000\<rparr>,
                    params_delayBuffer = None\<rparr>"
             and es = "[(0, Call 1 GetToken)]" and ms = 500000 and c = 2
             and t = "\<lparr>token = ''tok1'', expires_at = 1000\<rparr>"]
  by (simp add: connector_defs Let_def)

text \<open>
  C7. Whenever \<open>tokenPromise\<close> holds a promise, the exchange behind it is still in
  flight. When that exchange settles, with any value or with a rejection, the field is
  cleared and no call is left waiting; a following \<open>refreshToken()\<close> then starts a new
  exchange with a new promise.
\<close>

theorem marker_cleared_on_settle:
  fixes params es ms p res ms' c
  defines "w \<equiv> exec (constructor params) es"
  defines "w1 \<equiv> step ms (Settle p res) w"
  defines "w2 \<equiv> step ms' (Call c RefreshToken) w1"
  assumes "tokenPromise w = Some p"
  shows "inflight w = [p]
         \<and> tokenPromise w1 = None \<and> inflight w1 = [] \<and> waiting w1 = []
         \<and> calls w2 = calls w1 @ [GetNewApiToken (apiKey w)]
         \<and> tokenPromise w2 = Some (nextPromise w1) \<and> nextPromise w1 \<noteq> p
         \<and> inflight w2 = [nextPromise w1]
         \<and> waiting w2 = [(nextPromise w1, c, InRefreshToken)]"
proof -
  have wf: "wf w" unfolding w_def by (rule wf_reachable)
  have w1: "w1 = resume_all ms
                   (case res of Inl reason \<Rightarrow> Inl (ExchangeError reason) | Inr v \<Rightarrow> Inr v)
                   (waiting w) (w\<lparr>inflight := [], tokenPromise := None, waiting := []\<rparr>)"
    unfolding w1_def using settle_inflight [OF wf assms(4)] by simp
  have f: "tokenPromise w1 = None" "inflight w1 = []" "waiting w1 = []"
          "apiKey w1 = apiKey w" "nextPromise w1 = nextPromise w"
    by (simp_all add: w1 resume_all_frame)
  have "inflight w = [p]" "p < nextPromise w"
    using wf assms(4) by (simp_all add: wf_def)
  moreover have "w2 = w1\<lparr>tokenPromise := Some (nextPromise w1),
          calls := calls w1 @ [GetNewApiToken (apiKey w1)],
          inflight := inflight w1 @ [nextPromise w1],
          waiting := waiting w1 @ [(nextPromise w1, c, InRefreshToken)],
          nextPromise := nextPromise w1 + 1\<rparr>"
    unfolding w2_def using refreshToken_first [OF f(1)] by (simp del: call_method.simps)
  ultimately show ?thesis using f by simp
qed

theorem marker_cleared_on_settle_witness:
  "(let params = \<lparr>params_apiKey = ''abc123'', params_tokenStorage = None,
                    params_delayBuffer = None\<rparr>;
        w = exec (constructor params) [(0, Call 1 RefreshToken)];
        w1 = step 10 (Settle 0 (Inl ''timeout'')) w;
        w2 = step 20 (Call 2 RefreshToken) w1
    in tokenPromise w = Some 0 \<and> tokenPromise w1 = None
       \<and> finished w1 = [(1, Failed (ExchangeError ''timeout''))]
       \<and> calls w2 = [SetTokenStorage, GetNewApiToken ''abc123'', GetNewApiToken ''abc123'']
       \<and> tokenPromise w2 = Some 1)"
  using marker_cleared_on_settle
          [of "\<lparr>params_apiKey = ''abc123'', params_tokenStorage = None,
                   params_delayBuffer = None\<rparr>" "[(0, Call 1 RefreshToken)]" 0 10 "Inl ''timeout''" 20 2]
  by (simp add: connector_defs settle_def resume_all_def)

text \<open>
  C8. In every state, \<open>reconnect()\<close> makes one collaborator call, the client's
  \<open>reconnect\<close>, and settles as that call does; \<open>disconnect()\<close> likewise with the client's
  \<open>disconnect\<close>. Nothing else changes: no token exchange is started, the scheduler is not
  called (the armed timer stays), and the token store, the first-call flag and the pending
  fetch are what they were.
\<close>

theorem reconnect_disconnect_frame:
  "(let w1 = step ms (Call c Reconnect) w; w2 = step ms (Call c Disconnect) w in
      w1 = w\<lparr>calls := calls w @ [ClientReconnect],
             finished := finished w @ [(c, Delegated ClientReconnect)]\<rparr>
    \<and> w2 = w\<lparr>calls := calls w @ [ClientDisconnect],
             finished := finished w @ [(c, Delegated ClientDisconnect)]\<rparr>
    \<and> filter is_exchange (calls w1) = filter is_exchange (calls w)
    \<and> filter is_exchange (calls w2) = filter is_exchange (calls w)
    \<and> tokenStorage w1 = tokenStorage w \<and> tokenStorage w2 = tokenStorage w
    \<and> firstCall w1 = firstCall w \<and> firstCall w2 = firstCall w
    \<and> tokenPromise w1 = tokenPromise w \<and> tokenPromise w2 = tokenPromise w
    \<and> filter is_schedule (calls w1) = filter is_schedule (calls w)
    \<and> filter is_schedule (calls w2) = filter is_schedule (calls w)
    \<and> armed (calls w1) = armed (calls w) \<and> armed (calls w2) = armed (calls w))"
  by (simp add: connector_defs Let_def armed_append)

text \<open>
  C9. A connector built with API key "abc123", the default delay buffer and an empty
  token store; \<open>connect()\<close> is called at time \<open>ms\<close> and the exchange resolves with token
  "tok1" expiring 1000 seconds after \<open>ms\<close>. Afterwards the store holds that token, the
  client's \<open>connect()\<close> has been invoked exactly once, and the timer is armed for
  \<open>(1000 - elapsed) * 0.9\<close> seconds, where \<open>elapsed\<close> is the time the exchange took: 900
  seconds when the clock has not moved.
\<close>

theorem connect_scenario:
  "(let params = \<lparr>params_apiKey = ''abc123'', params_tokenStorage = None,
                    params_delayBuffer = None\<rparr>;
        t = \<lparr>token = ''tok1'', expires_at = seconds ms + 1000\<rparr>;
        w = exec (constructor params) [(ms, Call c Connect), (ms', Settle 0 (Inr (Some t)))];
        w0 = exec (constructor params) [(ms, Call c Connect), (ms, Settle 0 (Inr (Some t)))]
    in tokenStorage w = Some t
       \<and> filter (\<lambda>x. x = ClientConnect) (calls w) = [ClientConnect]
       \<and> finished w = [(c, Delegated ClientConnect)]
       \<and> armed (calls w) = Some ((1000 - (seconds ms' - seconds ms)) * 0.9)
       \<and> armed (calls w0) = Some 900
       \<and> calls w0 = [SetTokenStorage, GetNewApiToken ''abc123'', ScheduleNextRefresh 900,
                      ClientConnect])"
  by (simp add: connector_defs settle_def resume_all_def Let_def algebra_simps)



end
